theory Spec2Isabelle
  imports Main
begin

section \<open>The driver of SMTPlan: \<open>src/SMTPlan/src/SMTPlan.cpp\<close>\<close>

text \<open>
  The file holds the option table, \<open>printUsage\<close>, \<open>parseArguments\<close> and \<open>main\<close>.
  The parser, the grounder, the reachability pruner, the encoder and the solver process
  are collaborators of \<open>main\<close>: what they answer is a parameter of the model (an
  \<open>environment\<close>), what \<open>main\<close> asks of them and what it prints is recorded as a list of
  events.
\<close>

subsection \<open>The option table\<close>

record Argument =
  name :: string
  has_value :: bool
  help_text :: string

text \<open>The table has nine entries; \<open>number_of_arguments\<close> is 7 in the source.\<close>

definition number_of_arguments :: nat where
  "number_of_arguments = 7"

definition argument :: "Argument list" where
  "argument =
    [\<lparr>name = ''-h'', has_value = False, help_text = CHR 0x09 # ''Print this and exit.''\<rparr>,
     \<lparr>name = ''-p'', has_value = False,
      help_text = CHR 0x09 # ''Use the RPG reachability analysis to prune variables.''\<rparr>,
     \<lparr>name = ''-l'', has_value = True,
      help_text = ''number'' @ CHR 0x09 #
        ''Begin iterative deepening at an encoding with l happenings (default 1).''\<rparr>,
     \<lparr>name = ''-r'', has_value = False,
      help_text = CHR 0x09 #
        ''Use the RPG reachability analysis to determine the starting bound on hapenings.''\<rparr>,
     \<lparr>name = ''-u'', has_value = True,
      help_text = ''number'' @ CHR 0x09 #
        ''Run iterative deepening until the u is reached. Set -1 for unlimited (default -1).''\<rparr>,
     \<lparr>name = ''-s'', has_value = True,
      help_text = ''number'' @ CHR 0x09 #
        ''Iteratively deepen with a step size of s (default 1).''\<rparr>,
     \<lparr>name = ''-o'', has_value = True,
      help_text = ''path'' @ CHR 0x09 # ''Save encodings to file in smt2 format.''\<rparr>,
     \<lparr>name = ''-n'', has_value = False,
      help_text = CHR 0x09 # ''Do not solve. Generate encoding and exit.''\<rparr>,
     \<lparr>name = ''-e'', has_value = False,
      help_text = CHR 0x09 # ''Use human readable variable names in the SMT encoding.''\<rparr>]"

record PlannerOptions =
  domain_path :: string
  problem_path :: string
  encoding_path :: string
  solve :: bool
  explanatory_var_names :: bool
  lower_bound :: int
  upper_bound :: int
  step_size :: int
  prune :: bool
  rpg_lower_bound :: bool

subsection \<open>The C library's \<open>atoi\<close>\<close>

text \<open>
  \<open>atoi\<close> skips leading white space, reads an optional sign and then decimal digits up to
  the first character that is not a digit; with no digit the value is 0. The value is the
  mathematical one: C leaves a value outside the range of \<open>int\<close> undefined.
\<close>

definition isspace :: "char \<Rightarrow> bool" where
  "isspace c = (c \<in> set [CHR 0x20, CHR 0x09, CHR 0x0A, CHR 0x0B, CHR 0x0C, CHR 0x0D])"

definition isdigit :: "char \<Rightarrow> bool" where
  "isdigit c = (c \<in> set ''0123456789'')"

fun atoi_digits :: "int \<Rightarrow> string \<Rightarrow> int" where
  "atoi_digits acc [] = acc"
| "atoi_digits acc (c # cs) =
     (if isdigit c then atoi_digits (acc * 10 + (of_char c - 48)) cs else acc)"

definition atoi :: "string \<Rightarrow> int" where
  "atoi s =
     (case dropWhile isspace s of
        [] \<Rightarrow> 0
      | c # cs \<Rightarrow>
          if c = CHR ''-'' then - atoi_digits 0 cs
          else if c = CHR ''+'' then atoi_digits 0 cs
          else atoi_digits 0 (c # cs))"

subsection \<open>\<open>parseArguments\<close>\<close>

text \<open>
  Each \<open>return false\<close> of \<open>parseArguments\<close> is an error value: \<open>Help_requested\<close> is the
  silent return at \<open>-h\<close>, \<open>Expected_value f\<close> the return after printing
  "Expected value for option f" with \<open>fprintf(stdout, ...)\<close>, and \<open>Unrecognised a\<close> the
  return after writing "Unrecognised argument: a" to \<open>std::cerr\<close>.
\<close>

datatype arg_error = Help_requested | Expected_value string | Unrecognised string

text \<open>
  The chain of \<open>if (argument[j].name == ...)\<close> tests, on the name of the matched table
  entry and the current \<open>argv[i]\<close>; \<open>None\<close> is the \<open>return false\<close> of \<open>-h\<close>.
\<close>

definition set_option :: "string \<Rightarrow> string \<Rightarrow> PlannerOptions \<Rightarrow> PlannerOptions option" where
  "set_option n v options =
     (if n = ''-h'' then None
      else if n = ''-l'' then Some (options\<lparr>lower_bound := atoi v\<rparr>)
      else if n = ''-u'' then Some (options\<lparr>upper_bound := atoi v\<rparr>)
      else if n = ''-s'' then Some (options\<lparr>step_size := atoi v\<rparr>)
      else if n = ''-o'' then Some (options\<lparr>encoding_path := v\<rparr>)
      else if n = ''-n'' then Some (options\<lparr>solve := False\<rparr>)
      else if n = ''-p'' then Some (options\<lparr>prune := True\<rparr>)
      else if n = ''-r'' then Some (options\<lparr>rpg_lower_bound := True\<rparr>)
      else if n = ''-e'' then Some (options\<lparr>explanatory_var_names := True\<rparr>)
      else Some options)"

text \<open>
  The inner loop over \<open>j\<close>. Its first argument is the part of the table still to be
  compared, \<open>argument[j], ..., argument[number_of_arguments - 1]\<close>; the second is
  \<open>argv[i], ..., argv[argc - 1]\<close>, which is not empty while the loop runs. A matching
  entry that takes a value advances \<open>i\<close>, and the loop goes on with the later entries of
  the table compared against the new \<open>argv[i]\<close>. The result is the position, the options
  and \<open>argumentFound\<close>.
\<close>

fun scan_arguments ::
  "Argument list \<Rightarrow> string list \<Rightarrow> PlannerOptions \<Rightarrow> bool
     \<Rightarrow> arg_error + (string list \<times> PlannerOptions \<times> bool)" where
  "scan_arguments [] av options found = Inr (av, options, found)"
| "scan_arguments (a # as) [] options found = Inr ([], options, found)"
| "scan_arguments (a # as) (x # xs) options found =
     (if name a \<noteq> x then scan_arguments as (x # xs) options found
      else if has_value a then
        (case xs of
           [] \<Rightarrow> Inl (Expected_value x)
         | v # vs \<Rightarrow>
             (case set_option (name a) v options of
                None \<Rightarrow> Inl Help_requested
              | Some options' \<Rightarrow> scan_arguments as (v # vs) options' True))
      else
        (case set_option (name a) x options of
           None \<Rightarrow> Inl Help_requested
         | Some options' \<Rightarrow> scan_arguments as (x # xs) options' True))"

text \<open>The outer loop over \<open>i\<close>, on \<open>argv[i], ..., argv[argc - 1]\<close>.\<close>

function read_arguments :: "string list \<Rightarrow> PlannerOptions \<Rightarrow> arg_error + PlannerOptions" where
  "read_arguments [] options = Inr options"
| "read_arguments (x # xs) options =
     (case scan_arguments (take number_of_arguments argument) (x # xs) options False of
        Inl e \<Rightarrow> Inl e
      | Inr (av, options', found) \<Rightarrow>
          if \<not> found then Inl (Unrecognised (hd av))
          else read_arguments (tl av) options')"
  by pat_completeness auto
termination
proof (relation "measure (\<lambda>(av, options). length av)")
  show "wf (measure (\<lambda>(av, options). length av))" by simp
next
  fix x xs options r av p options' found
  assume "scan_arguments (take number_of_arguments argument) (x # xs) options False = Inr r"
    and "(av, p) = r" and "(options', found) = p"
  then have scanned:
    "scan_arguments (take number_of_arguments argument) (x # xs) options False
      = Inr (av, options', found)"
    by simp
  have "scan_arguments as bv opts f = Inr (av, options', found) \<Longrightarrow> bv \<noteq> []
      \<Longrightarrow> av \<noteq> [] \<and> length av \<le> length bv" for as bv opts f
    by (induction as bv opts f rule: scan_arguments.induct)
      (fastforce split: if_splits option.splits list.splits)+
  from this [OF scanned] have "av \<noteq> []" and "length av \<le> length (x # xs)"
    by simp_all
  then show "((tl av, options'), x # xs, options) \<in> measure (\<lambda>(av, options). length av)"
    by (cases av) simp_all
qed

definition default_options :: "string \<Rightarrow> string \<Rightarrow> PlannerOptions" where
  "default_options d p =
     \<lparr>domain_path = d, problem_path = p, encoding_path = [],
      solve = True, explanatory_var_names = True,
      lower_bound = 1, upper_bound = - 1, step_size = 1,
      prune = False, rpg_lower_bound = False\<rparr>"

text \<open>
  \<open>main\<close> calls \<open>parseArguments\<close> only when \<open>argc\<close> is at least 3, so that \<open>argv[1]\<close> and
  \<open>argv[2]\<close> are there; \<open>argv[0]\<close> is the program's name.
\<close>

definition parseArguments :: "string list \<Rightarrow> arg_error + PlannerOptions" where
  "parseArguments argv =
     read_arguments (drop 3 argv) (default_options (argv ! 1) (argv ! 2))"

subsection \<open>What the program does: events\<close>

text \<open>
  A run is observed as the list of its events, in order: what it prints (by stream; the
  elapsed seconds inside the progress lines are left out) and what it asks of its
  collaborators.
\<close>

datatype stream = Stdout | Stderr

datatype message =
    Usage_header string
  | Options_header
  | Option_line string string
  | Usage_example string
  | Expected_value_message string
  | Unrecognised_message string
  | Parsing_failed_message
  | Parsed_time
  | Grounded_time
  | RPG_built_time
  | Encoded_time int
  | Solved_time int
  | Total_time
  | Unable_to_open_message string
  | No_plan_found_message int

datatype destination = Std_cout | File string

datatype event =
    Print stream message
  | Parse_domain string
  | Parse_problem string
  | Ground
  | Build_RPG
  | Open_file string
  | Encode destination int
  | System string

text \<open>
  How \<open>main\<close> ends: \<open>return\<close> with an exit code, or the increment \<open>i++\<close> at the largest
  \<open>int\<close>, which C++ leaves undefined.
\<close>

datatype outcome = Exit int | Signed_overflow

definition INT_MAX :: int where
  "INT_MAX = 2147483647"

text \<open>
  The collaborators: whether the parser accepts the domain and the problem file, whether
  the grounder met a failure (\<open>main\<close> calls \<open>grounder.ground\<close> as a statement and looks
  at nothing it returns), the pruner's \<open>goal_layer\<close> after \<open>build\<close>, whether the output
  file of that name opens in the iteration with \<open>i\<close> happenings, and what \<open>system\<close>
  returns in that iteration. The grounder and the pruner are taken to leave the options
  as they are.
\<close>

record environment =
  parseDomain :: "string \<Rightarrow> bool"
  parseProblem :: "string \<Rightarrow> bool"
  ground_fails :: bool
  goal_layer :: int
  file_opens :: "string \<Rightarrow> int \<Rightarrow> bool"
  system_result :: "int \<Rightarrow> int"

subsection \<open>\<open>printUsage\<close>\<close>

definition printUsage :: "string \<Rightarrow> event list" where
  "printUsage arg =
     [Print Stdout (Usage_header arg), Print Stdout Options_header]
     @ map (\<lambda>a. Print Stdout (Option_line (name a) (help_text a)))
         (take number_of_arguments argument)
     @ [Print Stdout (Usage_example arg)]"

text \<open>What \<open>parseArguments\<close> prints before each \<open>return false\<close>.\<close>

fun report :: "arg_error \<Rightarrow> event list" where
  "report Help_requested = []"
| "report (Expected_value f) = [Print Stdout (Expected_value_message f)]"
| "report (Unrecognised a) = [Print Stderr (Unrecognised_message a)]"

subsection \<open>The search loop of \<open>main\<close>\<close>

text \<open>The command line handed to \<open>system\<close>; the quotes are the character 0x27.\<close>

definition solver_command :: string where
  "solver_command =
     ''z3 test.smt2 | paste -sd '' @ [CHR 0x27, CHR 0x20, CHR 0x0A, CHR 0x27]
     @ '' | egrep '' @ [CHR 0x27] @ ''true|duration'' @ [CHR 0x27]
     @ '' | egrep '' @ [CHR 0x27] @ ''sta|duration'' @ [CHR 0x27]"

definition prepend :: "event list \<Rightarrow> event list \<times> outcome \<Rightarrow> event list \<times> outcome" where
  "prepend evs r = (evs @ fst r, snd r)"

text \<open>
  One pass through the loop body up to the call of \<open>system\<close>, when the output is set:
  the encoder writes to \<open>std::cout\<close> for the empty path and to the opened file otherwise.
\<close>

definition encode_events :: "PlannerOptions \<Rightarrow> int \<Rightarrow> event list" where
  "encode_events options i =
     (if encoding_path options = [] then [Encode Std_cout i]
      else [Open_file (encoding_path options), Encode (File (encoding_path options)) i])
     @ [Print Stdout (Encoded_time i), System solver_command]"

text \<open>
  The loop \<open>for (int i = options.lower_bound; (options.upper_bound < 0 || i <=
  options.upper_bound); i++)\<close>, from the value \<open>i\<close> of its counter. The statement
  \<open>if (!pFile.is_open()) pFile.close();\<close> after the encoding closes nothing and is no
  event.
\<close>

function search_loop :: "environment \<Rightarrow> PlannerOptions \<Rightarrow> int \<Rightarrow> event list \<times> outcome" where
  "search_loop env options i =
     (if upper_bound options < 0 \<or> i \<le> upper_bound options then
        (if encoding_path options \<noteq> [] \<and> \<not> file_opens env (encoding_path options) i then
           ([Open_file (encoding_path options),
             Print Stderr (Unable_to_open_message (encoding_path options))], Exit 1)
         else if system_result env i = 0 then
           (encode_events options i @ [Print Stdout (Solved_time i), Print Stdout Total_time],
            Exit 0)
         else if INT_MAX \<le> i then
           (encode_events options i @ [Print Stdout (Solved_time i)], Signed_overflow)
         else
           prepend (encode_events options i @ [Print Stdout (Solved_time i)])
             (search_loop env options (i + 1)))
      else
        ([Print Stdout (No_plan_found_message (upper_bound options)), Print Stdout Total_time],
         Exit 0))"
  by pat_completeness auto
termination
  by (relation "measure (\<lambda>(env, options, i). nat (INT_MAX - i))") auto

declare search_loop.simps [simp del]

subsection \<open>\<open>main\<close>\<close>

text \<open>
  The options the loop runs with: the lower bound replaced by the goal layer under
  \<open>rpg_lower_bound\<close>, then \<open>options.encoding_path = "test.smt2"\<close>.
\<close>

definition search_options :: "environment \<Rightarrow> PlannerOptions \<Rightarrow> PlannerOptions" where
  "search_options env options =
     (if rpg_lower_bound options then options\<lparr>lower_bound := goal_layer env\<rparr> else options)
       \<lparr>encoding_path := ''test.smt2''\<rparr>"

definition setup_events :: "PlannerOptions \<Rightarrow> event list" where
  "setup_events options =
     [Parse_domain (domain_path options), Parse_problem (problem_path options),
      Print Stdout Parsed_time, Ground, Print Stdout Grounded_time,
      Build_RPG, Print Stdout RPG_built_time]"

definition main :: "string list \<Rightarrow> environment \<Rightarrow> event list \<times> outcome" where
  "main argv env =
     (if length argv < 3 then (printUsage (argv ! 0), Exit 1)
      else
        case parseArguments argv of
          Inl e \<Rightarrow> (report e @ printUsage (argv ! 0), Exit 1)
        | Inr options \<Rightarrow>
            if \<not> parseDomain env (domain_path options) then
              ([Parse_domain (domain_path options), Print Stderr Parsing_failed_message],
               Exit 1)
            else if \<not> parseProblem env (problem_path options) then
              ([Parse_domain (domain_path options), Parse_problem (problem_path options),
                Print Stderr Parsing_failed_message], Exit 1)
            else
              prepend (setup_events options)
                (search_loop env (search_options env options)
                   (lower_bound (search_options env options))))"

subsection \<open>Reading a run\<close>

text \<open>The happening counts handed to the encoder, in order.\<close>

fun encoded_counts :: "event list \<Rightarrow> int list" where
  "encoded_counts [] = []"
| "encoded_counts (Encode d i # evs) = i # encoded_counts evs"
| "encoded_counts (e # evs) = encoded_counts evs"

text \<open>Where the encoder was told to write, in order.\<close>

fun destinations :: "event list \<Rightarrow> destination list" where
  "destinations [] = []"
| "destinations (Encode d i # evs) = d # destinations evs"
| "destinations (e # evs) = destinations evs"

text \<open>The number of calls of \<open>system\<close>.\<close>

fun solver_calls :: "event list \<Rightarrow> nat" where
  "solver_calls [] = 0"
| "solver_calls (System c # evs) = Suc (solver_calls evs)"
| "solver_calls (e # evs) = solver_calls evs"

text \<open>What was printed on one stream, in order.\<close>

fun printed :: "stream \<Rightarrow> event list \<Rightarrow> message list" where
  "printed s [] = []"
| "printed s (Print s' m # evs) = (if s' = s then m # printed s evs else printed s evs)"
| "printed s (e # evs) = printed s evs"

text \<open>Everything that is not printing: parsing, grounding, pruning, files, encoding, solving.\<close>

fun work :: "event list \<Rightarrow> event list" where
  "work [] = []"
| "work (Print s m # evs) = work evs"
| "work (e # evs) = e # work evs"

text \<open>
  The loop test \<open>options.upper_bound < 0 || i <= options.upper_bound\<close>, and whether the
  output of iteration \<open>i\<close> can be set.
\<close>

definition in_bound :: "PlannerOptions \<Rightarrow> int \<Rightarrow> bool" where
  "in_bound options i = (upper_bound options < 0 \<or> i \<le> upper_bound options)"

definition output_set :: "environment \<Rightarrow> PlannerOptions \<Rightarrow> int \<Rightarrow> bool" where
  "output_set env options i =
     (encoding_path options = [] \<or> file_opens env (encoding_path options) i)"

text \<open>
  The loop started at \<open>s\<close> comes to its test with the counter at \<open>i\<close>: every iteration
  from \<open>s\<close> up to \<open>i\<close>, \<open>i\<close> excluded, was inside the bound, set its output, had a solver
  result other than 0 and could increment the counter.
\<close>

definition reaches :: "environment \<Rightarrow> PlannerOptions \<Rightarrow> int \<Rightarrow> int \<Rightarrow> bool" where
  "reaches env options s i =
     (s \<le> i \<and>
      (\<forall>k \<in> {s..<i}. in_bound options k \<and> output_set env options k
         \<and> system_result env k \<noteq> 0 \<and> k < INT_MAX))"

subsection \<open>Example environments\<close>

text \<open>
  Both files parse, the goal layer is 3, the output file opens or not in every iteration,
  and the solver's pipeline returns 0 with \<open>sat_at\<close> happenings and 1 otherwise.
\<close>

definition example_environment :: "bool \<Rightarrow> bool \<Rightarrow> int \<Rightarrow> environment" where
  "example_environment grounding_fails opens sat_at =
     \<lparr>parseDomain = (\<lambda>path. True), parseProblem = (\<lambda>path. True),
      ground_fails = grounding_fails, goal_layer = 3,
      file_opens = (\<lambda>path i. opens),
      system_result = (\<lambda>i. if i = sat_at then 0 else 1)\<rparr>"

section \<open>Properties\<close>

lemmas run_defs = main_def parseArguments_def number_of_arguments_def argument_def
  set_option_def default_options_def search_options_def setup_events_def prepend_def
  encode_events_def printUsage_def atoi_def isspace_def isdigit_def INT_MAX_def
  example_environment_def search_loop.simps

subsection \<open>The branches of the loop\<close>

lemma search_loop_beyond:
  "\<not> in_bound options i \<Longrightarrow>
     search_loop env options i =
       ([Print Stdout (No_plan_found_message (upper_bound options)), Print Stdout Total_time],
        Exit 0)"
  by (subst search_loop.simps) (simp add: in_bound_def)


lemma search_loop_solved:
  "in_bound options i \<Longrightarrow> output_set env options i \<Longrightarrow> system_result env i = 0 \<Longrightarrow>
     search_loop env options i =
       (encode_events options i @ [Print Stdout (Solved_time i), Print Stdout Total_time],
        Exit 0)"
  by (subst search_loop.simps) (auto simp add: in_bound_def output_set_def)

lemma search_loop_overflow:
  "in_bound options i \<Longrightarrow> output_set env options i \<Longrightarrow> system_result env i \<noteq> 0 \<Longrightarrow>
     INT_MAX \<le> i \<Longrightarrow>
     search_loop env options i =
       (encode_events options i @ [Print Stdout (Solved_time i)], Signed_overflow)"
  by (subst search_loop.simps) (auto simp add: in_bound_def output_set_def)

lemma search_loop_next:
  "in_bound options i \<Longrightarrow> output_set env options i \<Longrightarrow> system_result env i \<noteq> 0 \<Longrightarrow>
     i < INT_MAX \<Longrightarrow>
     search_loop env options i =
       prepend (encode_events options i @ [Print Stdout (Solved_time i)])
         (search_loop env options (i + 1))"
  by (subst search_loop.simps) (auto simp add: in_bound_def output_set_def)

lemma main_searches:
  assumes "3 \<le> length argv" and "parseArguments argv = Inr options"
    and "parseDomain env (domain_path options)" and "parseProblem env (problem_path options)"
  shows "main argv env =
    prepend (setup_events options)
      (search_loop env (search_options env options)
         (if rpg_lower_bound options then goal_layer env else lower_bound options))"
  using assms by (simp add: main_def search_options_def)

lemma search_options_upper [simp]:
  "upper_bound (search_options env options) = upper_bound options"
  by (simp add: search_options_def)

subsection \<open>The two loops of \<open>parseArguments\<close>\<close>

lemma scan_arguments_suffix:
  "scan_arguments as av options found = Inr (av', options', found') \<Longrightarrow> av \<noteq> []
     \<Longrightarrow> av' \<noteq> [] \<and> (\<exists>pre. av = pre @ av')"
proof (induction as av options found rule: scan_arguments.induct)
  case (3 a as x xs options found)
  show ?case
  proof (cases "name a = x")
    case False
    with 3 show ?thesis by simp
  next
    case match: True
    show ?thesis
    proof (cases "has_value a")
      case True
      with match "3.prems" obtain v vs options'' where xs: "xs = v # vs"
        and "set_option (name a) v options = Some options''"
        and "scan_arguments as (v # vs) options'' True = Inr (av', options', found')"
        by (auto split: list.splits option.splits)
      with "3.IH"(2) [of v vs options''] match True
      obtain pre where "av' \<noteq> []" and "v # vs = pre @ av'"
        by auto
      then have "x # xs = (x # pre) @ av'" using xs by simp
      with \<open>av' \<noteq> []\<close> show ?thesis by blast
    next
      case False
      with match "3.prems" obtain options'' where
        "set_option (name a) x options = Some options''"
        and "scan_arguments as (x # xs) options'' True = Inr (av', options', found')"
        by (auto split: option.splits)
      with "3.IH"(3) [of options''] match False show ?thesis
        by auto
    qed
  qed
qed simp_all

lemma scan_arguments_append:
  "scan_arguments as av options found = Inr (av', options', found') \<Longrightarrow> av \<noteq> []
     \<Longrightarrow> scan_arguments as (av @ suf) options found = Inr (av' @ suf, options', found')"
proof (induction as av options found rule: scan_arguments.induct)
  case (3 a as x xs options found)
  then show ?case
    by (auto split: if_splits list.splits option.splits)
qed simp_all

lemma read_arguments_append:
  "read_arguments pre options = Inr options1
     \<Longrightarrow> read_arguments (pre @ suf) options = read_arguments suf options1"
proof (induction pre options rule: read_arguments.induct)
  case (1 options)
  then show ?case by simp
next
  case (2 x xs options)
  from "2.prems" obtain av options' where
    scanned: "scan_arguments (take number_of_arguments argument) (x # xs) options False
        = Inr (av, options', True)"
    and rest: "read_arguments (tl av) options' = Inr options1"
    by (auto split: sum.splits if_splits)
  from scan_arguments_suffix [OF scanned] have "av \<noteq> []" by simp
  from scan_arguments_append [OF scanned, of suf]
  have "scan_arguments (take number_of_arguments argument) ((x # xs) @ suf) options False
      = Inr (av @ suf, options', True)"
    by simp
  moreover have "read_arguments (tl av @ suf) options' = read_arguments suf options1"
    using "2.IH" [OF scanned refl refl _ rest] by simp
  ultimately show ?case
    using \<open>av \<noteq> []\<close> by simp
qed






lemma scan_arguments_keeps_args:
  assumes keeps: "\<And>m v opts opts'. set_option m v opts = Some opts' \<Longrightarrow> m \<noteq> n \<Longrightarrow> sel opts' = sel opts"
  shows "scan_arguments as av options found = Inr (av', options', found')
     \<Longrightarrow> n \<notin> set av \<Longrightarrow> sel options' = sel options"
proof (induction as av options found rule: scan_arguments.induct)
  case (3 a as x xs options found)
  then show ?case
    by (auto split: if_splits list.splits option.splits dest: keeps)
qed simp_all

lemma tl_suffix_subset:
  "av = pre @ av' \<Longrightarrow> av' \<noteq> [] \<Longrightarrow> set (tl av') \<subseteq> set (tl av)"
  by (cases pre; cases av') auto

lemma read_arguments_keeps:
  assumes keeps: "\<And>m v opts opts'. set_option m v opts = Some opts' \<Longrightarrow> m \<noteq> n \<Longrightarrow> sel opts' = sel opts"
  shows "read_arguments av options = Inr options' \<Longrightarrow> n \<notin> set av \<Longrightarrow> sel options' = sel options"
proof (induction av options rule: read_arguments.induct)
  case (1 options)
  then show ?case by simp
next
  case (2 x xs options)
  from "2.prems" obtain av options1 where
    scanned: "scan_arguments (take number_of_arguments argument) (x # xs) options False
        = Inr (av, options1, True)"
    and rest: "read_arguments (tl av) options1 = Inr options'"
    by (auto split: sum.splits if_splits)
  from scan_arguments_suffix [OF scanned] obtain pre where "x # xs = pre @ av" and "av \<noteq> []"
    by auto
  from tl_suffix_subset [OF this] have "set (tl av) \<subseteq> set xs"
    by simp
  with "2.prems"(2) have "n \<notin> set (tl av)" by auto
  from "2.IH" [OF scanned refl refl _ rest this] have "sel options' = sel options1" by simp
  moreover have "sel options1 = sel options"
    using scan_arguments_keeps_args [of n sel, OF keeps scanned] "2.prems"(2) by simp
  ultimately show ?case by simp
qed

lemma set_option_keeps:
  "set_option m v opts = Some opts' \<Longrightarrow> m \<noteq> ''-l'' \<Longrightarrow> lower_bound opts' = lower_bound opts"
  "set_option m v opts = Some opts' \<Longrightarrow> m \<noteq> ''-u'' \<Longrightarrow> upper_bound opts' = upper_bound opts"
  "set_option m v opts = Some opts' \<Longrightarrow> m \<noteq> ''-s'' \<Longrightarrow> step_size opts' = step_size opts"
  "set_option m v opts = Some opts' \<Longrightarrow> m \<noteq> ''-o'' \<Longrightarrow> encoding_path opts' = encoding_path opts"
  "set_option m v opts = Some opts' \<Longrightarrow> m \<noteq> ''-p'' \<Longrightarrow> prune opts' = prune opts"
  "set_option m v opts = Some opts' \<Longrightarrow> m \<noteq> ''-r'' \<Longrightarrow> rpg_lower_bound opts' = rpg_lower_bound opts"
  by (auto simp: set_option_def split: if_splits)






lemma scan_arguments_stays:
  assumes stays: "\<And>m v opts opts'. set_option m v opts = Some opts' \<Longrightarrow> sel opts \<Longrightarrow> sel opts'"
  shows "scan_arguments as av options found = Inr (av', options', found')
     \<Longrightarrow> sel options \<Longrightarrow> sel options'"
proof (induction as av options found rule: scan_arguments.induct)
  case (3 a as x xs options found)
  then show ?case
    by (auto split: if_splits list.splits option.splits dest: stays)
qed simp_all

lemma read_arguments_stays:
  assumes stays: "\<And>m v opts opts'. set_option m v opts = Some opts' \<Longrightarrow> sel opts \<Longrightarrow> sel opts'"
  shows "read_arguments av options = Inr options' \<Longrightarrow> sel options \<Longrightarrow> sel options'"
proof (induction av options rule: read_arguments.induct)
  case (1 options)
  then show ?case by simp
next
  case (2 x xs options)
  from "2.prems" obtain av options1 where
    scanned: "scan_arguments (take number_of_arguments argument) (x # xs) options False
        = Inr (av, options1, True)"
    and rest: "read_arguments (tl av) options1 = Inr options'"
    by (auto split: sum.splits if_splits)
  have "sel options1"
    using scan_arguments_stays [of sel, OF stays scanned] "2.prems"(2) by simp
  from "2.IH" [OF scanned refl refl _ rest this] show ?case by simp
qed

lemma set_option_stays:
  "set_option m v opts = Some opts' \<Longrightarrow> prune opts \<Longrightarrow> prune opts'"
  "set_option m v opts = Some opts' \<Longrightarrow> rpg_lower_bound opts \<Longrightarrow> rpg_lower_bound opts'"
  by (auto simp: set_option_def split: if_splits)


lemma flag_rpg_lower_bound:
  assumes "read_arguments (''-r'' # suf) options = Inr options'"
  shows "rpg_lower_bound options'"
proof -
  have "scan_arguments (take number_of_arguments argument) (''-r'' # suf) options False
      = scan_arguments (drop 4 (take number_of_arguments argument)) (''-r'' # suf)
          (options\<lparr>rpg_lower_bound := True\<rparr>) True"
    by (simp add: number_of_arguments_def argument_def set_option_def)
  with assms obtain av options1 where
    scanned: "scan_arguments (drop 4 (take number_of_arguments argument)) (''-r'' # suf)
          (options\<lparr>rpg_lower_bound := True\<rparr>) True = Inr (av, options1, True)"
    and rest: "read_arguments (tl av) options1 = Inr options'"
    by (auto split: sum.splits if_splits)
  have "rpg_lower_bound options1"
    using scan_arguments_stays [of rpg_lower_bound, OF set_option_stays(2) scanned] by simp
  then show ?thesis
    using read_arguments_stays [of rpg_lower_bound, OF set_option_stays(2) rest] by simp
qed


subsection \<open>Reading events\<close>

lemma encoded_counts_append [simp]:
  "encoded_counts (xs @ ys) = encoded_counts xs @ encoded_counts ys"
  by (induction xs rule: encoded_counts.induct) simp_all

lemma encoded_counts_encode_events [simp]: "encoded_counts (encode_events options i) = [i]"
  by (simp add: encode_events_def)

lemma encoded_counts_setup_events [simp]: "encoded_counts (setup_events options) = []"
  by (simp add: setup_events_def)

lemma work_printUsage [simp]: "work (printUsage c) = []"
  by (simp add: printUsage_def number_of_arguments_def argument_def)

lemma printed_Stderr_printUsage [simp]: "printed Stderr (printUsage c) = []"
  by (simp add: printUsage_def number_of_arguments_def argument_def)

lemma search_loop_first_count:
  assumes "in_bound options s" and "output_set env options s"
  shows "\<exists>rest. encoded_counts (fst (search_loop env options s)) = s # rest"
proof (cases "system_result env s = 0")
  case True
  with assms show ?thesis by (simp add: search_loop_solved)
next
  case False
  with assms show ?thesis
    by (cases "INT_MAX \<le> s") (simp_all add: search_loop_overflow search_loop_next prepend_def)
qed

lemma encoded_counts_member:
  "i \<in> set (encoded_counts evs) \<longleftrightarrow> (\<exists>d. Encode d i \<in> set evs)"
  by (induction evs rule: encoded_counts.induct) auto

lemma encoded_counts_report [simp]: "encoded_counts (report e) = []"
  by (cases e) simp_all

lemma encoded_counts_printUsage [simp]: "encoded_counts (printUsage c) = []"
  by (simp add: printUsage_def number_of_arguments_def argument_def)


subsection \<open>How the loop ends\<close>

lemma reaches_self [simp]: "reaches env options s s"
  by (simp add: reaches_def)






subsection \<open>The step size\<close>

text \<open>
  Claim C1: with lower bound L, upper bound U at least L and step size S above 0, the
  search visits exactly L, L + S, L + 2S, ... up to the last value not above U. The loop
  increments its counter with \<open>i++\<close> and never reads \<open>options.step_size\<close>: the run
  \<open>-l 1 -u 5 -s 2\<close> whose solver never answers 0 stores the step size 2, encodes with
  1, 2, 3, 4 and 5 happenings and returns 0.
\<close>

theorem step_size_not_used:
  "parseArguments [''smtplan'', ''d'', ''p'', ''-l'', ''1'', ''-u'', ''5'', ''-s'', ''2'']
     = Inr ((default_options ''d'' ''p'') \<lparr>lower_bound := 1, upper_bound := 5, step_size := 2\<rparr>)
   \<and> encoded_counts (fst (main [''smtplan'', ''d'', ''p'', ''-l'', ''1'', ''-u'', ''5'', ''-s'', ''2'']
        (example_environment False True 0))) = [1, 2, 3, 4, 5]
   \<and> snd (main [''smtplan'', ''d'', ''p'', ''-l'', ''1'', ''-u'', ''5'', ''-s'', ''2'']
        (example_environment False True 0)) = Exit 0"
  by (simp add: run_defs)

subsection \<open>Emitting without solving\<close>

text \<open>
  Claim C2: under \<open>-n\<close> the program encodes once, at the starting count, and never calls
  the solver. The inner loop of \<open>parseArguments\<close> compares the first
  \<open>number_of_arguments\<close> = 7 entries of the table only, so \<open>-n\<close>, the eighth, is
  reported as unrecognised and the run ends with code 1 before anything is encoded; and
  the loop of \<open>main\<close> never reads \<open>options.solve\<close>: with \<open>solve\<close> false and the bound 3
  it calls the solver three times.
\<close>

theorem emit_only_not_implemented:
  "main [''smtplan'', ''d'', ''p'', ''-n''] (example_environment False True 0)
     = (Print Stderr (Unrecognised_message ''-n'') # printUsage ''smtplan'', Exit 1)
   \<and> encoded_counts (fst (main [''smtplan'', ''d'', ''p'', ''-n'']
        (example_environment False True 0))) = []
   \<and> solver_calls (fst (search_loop (example_environment False True 0)
        ((default_options ''d'' ''p'') \<lparr>solve := False, upper_bound := 3\<rparr>) 1)) = 3"
  by (simp add: run_defs)

subsection \<open>The output destination\<close>

text \<open>
  Claim C3: the formula goes to the path given with \<open>-o\<close>, and to standard output when
  there is none. \<open>main\<close> assigns \<open>options.encoding_path = "test.smt2"\<close> just before the
  loop: \<open>-o out.smt2\<close> is stored by \<open>parseArguments\<close> and then overwritten, and with or
  without \<open>-o\<close> the encoder writes to the file \<open>test.smt2\<close>.
\<close>

theorem output_path_overwritten:
  "parseArguments [''smtplan'', ''d'', ''p'', ''-o'', ''out.smt2'']
     = Inr ((default_options ''d'' ''p'') \<lparr>encoding_path := ''out.smt2''\<rparr>)
   \<and> destinations (fst (main [''smtplan'', ''d'', ''p'', ''-o'', ''out.smt2'']
        (example_environment False True 1))) = [File ''test.smt2'']
   \<and> destinations (fst (main [''smtplan'', ''d'', ''p'']
        (example_environment False True 1))) = [File ''test.smt2'']"
  by (simp add: run_defs)

subsection \<open>Explanatory names\<close>

text \<open>
  Claim C7: readable names are used when and only when \<open>-e\<close> is given. The default of
  \<open>explanatory_var_names\<close> is already true, so a run without \<open>-e\<close> has it on; and \<open>-e\<close>,
  the ninth entry of the table, is beyond \<open>number_of_arguments\<close> and is reported as
  unrecognised.
\<close>

theorem explanatory_names_not_controlled:
  "parseArguments [''smtplan'', ''d'', ''p''] = Inr (default_options ''d'' ''p'')
   \<and> explanatory_var_names (default_options ''d'' ''p'')
   \<and> parseArguments [''smtplan'', ''d'', ''p'', ''-e''] = Inl (Unrecognised ''-e'')"
  by (simp add: run_defs)

subsection \<open>An upper bound below the start\<close>

text \<open>
  Claim C10: when the upper bound is not negative and below the starting count, the body
  of the loop never runs: nothing is encoded, the solver is not called, the program prints
  that no plan was found and returns 0.
\<close>

theorem search_skipped_when_bound_below_start:
  assumes "3 \<le> length argv" and "parseArguments argv = Inr options"
    and "parseDomain env (domain_path options)" and "parseProblem env (problem_path options)"
    and "0 \<le> upper_bound options"
    and "upper_bound options
           < (if rpg_lower_bound options then goal_layer env else lower_bound options)"
  shows "main argv env =
           (setup_events options
              @ [Print Stdout (No_plan_found_message (upper_bound options)),
                 Print Stdout Total_time], Exit 0)
         \<and> encoded_counts (fst (main argv env)) = []
         \<and> solver_calls (fst (main argv env)) = 0"
proof -
  let ?start = "if rpg_lower_bound options then goal_layer env else lower_bound options"
  have "\<not> in_bound (search_options env options) ?start"
    using assms(5,6) by (simp add: in_bound_def)
  then have run: "main argv env =
      (setup_events options
         @ [Print Stdout (No_plan_found_message (upper_bound options)),
            Print Stdout Total_time], Exit 0)"
    using main_searches [OF assms(1-4)] by (simp add: search_loop_beyond prepend_def)
  show ?thesis
    unfolding run by (simp add: setup_events_def)
qed

theorem search_skipped_when_bound_below_start_witness:
  "main [''smtplan'', ''d'', ''p'', ''-l'', ''4'', ''-u'', ''2''] (example_environment False True 4)
     = ([Parse_domain ''d'', Parse_problem ''p'', Print Stdout Parsed_time, Ground,
         Print Stdout Grounded_time, Build_RPG, Print Stdout RPG_built_time,
         Print Stdout (No_plan_found_message 2), Print Stdout Total_time], Exit 0)"
proof -
  let ?argv = "[''smtplan'', ''d'', ''p'', ''-l'', ''4'', ''-u'', ''2'']"
  let ?options = "(default_options ''d'' ''p'') \<lparr>lower_bound := 4, upper_bound := 2\<rparr>"
  have parsed: "parseArguments ?argv = Inr ?options"
    by (simp add: run_defs)
  show ?thesis
    using search_skipped_when_bound_below_start
      [of ?argv ?options "example_environment False True 4"] parsed
    by (simp add: default_options_def example_environment_def setup_events_def)
qed

subsection \<open>Defaults, order and repeated flags\<close>



subsection \<open>Argument errors\<close>




subsection \<open>Where the search starts\<close>

text \<open>
  Claim C6: with \<open>-r\<close> the search starts at the goal layer of the reachability pruner,
  whatever \<open>-l\<close> configured; without \<open>-r\<close> it starts at the configured lower bound, which
  is 1 by default. In a run that gets past the parser, the loop is entered with that
  count, and if the loop test holds there and the output file opens, it is the first
  count encoded. \<open>-r\<close> at a place where the arguments are read turns the option on, and a
  command line without \<open>-r\<close> leaves it off.
\<close>

theorem search_starts_at_goal_layer_or_lower_bound:
  assumes "3 \<le> length argv" and "parseArguments argv = Inr options"
    and "parseDomain env (domain_path options)" and "parseProblem env (problem_path options)"
  shows "main argv env =
           prepend (setup_events options)
             (search_loop env (search_options env options)
                (if rpg_lower_bound options then goal_layer env else lower_bound options))
    \<and> (in_bound options (if rpg_lower_bound options then goal_layer env else lower_bound options)
         \<and> file_opens env ''test.smt2''
             (if rpg_lower_bound options then goal_layer env else lower_bound options)
       \<longrightarrow> (\<exists>rest. encoded_counts (fst (main argv env))
             = (if rpg_lower_bound options then goal_layer env else lower_bound options) # rest))
    \<and> (\<forall>pre suf options1. drop 3 argv = pre @ ''-r'' # suf
          \<and> read_arguments pre (default_options (argv ! 1) (argv ! 2)) = Inr options1
       \<longrightarrow> rpg_lower_bound options)
    \<and> (''-r'' \<notin> set (drop 3 argv) \<longrightarrow> \<not> rpg_lower_bound options)
    \<and> (''-l'' \<notin> set (drop 3 argv) \<longrightarrow> lower_bound options = 1)"
proof -
  let ?start = "if rpg_lower_bound options then goal_layer env else lower_bound options"
  let ?options = "search_options env options"
  have run: "main argv env = prepend (setup_events options) (search_loop env ?options ?start)"
    using assms by (rule main_searches)
  have first: "\<exists>rest. encoded_counts (fst (main argv env)) = ?start # rest"
    if "in_bound options ?start \<and> file_opens env ''test.smt2'' ?start"
  proof -
    from that have "in_bound ?options ?start" and "output_set env ?options ?start"
      by (auto simp add: in_bound_def output_set_def search_options_def split: if_splits)
    from search_loop_first_count [OF this] show ?thesis
      unfolding run by (simp add: prepend_def)
  qed
  have read: "read_arguments (drop 3 argv) (default_options (argv ! 1) (argv ! 2)) = Inr options"
    using assms(2) by (simp add: parseArguments_def)
  have given: "rpg_lower_bound options"
    if "drop 3 argv = pre @ ''-r'' # suf"
      and "read_arguments pre (default_options (argv ! 1) (argv ! 2)) = Inr options1"
    for pre suf options1
  proof -
    from read that(1) read_arguments_append [OF that(2), of "''-r'' # suf"]
    have "read_arguments (''-r'' # suf) options1 = Inr options"
      by simp
    then show ?thesis by (rule flag_rpg_lower_bound)
  qed
  have absent: "\<not> rpg_lower_bound options" if "''-r'' \<notin> set (drop 3 argv)"
    using read_arguments_keeps [of "''-r''" rpg_lower_bound, OF set_option_keeps(6) read that]
    by (simp add: default_options_def)
  have default: "lower_bound options = 1" if "''-l'' \<notin> set (drop 3 argv)"
    using read_arguments_keeps [of "''-l''" lower_bound, OF set_option_keeps(1) read that]
    by (simp add: default_options_def)
  from run first given absent default show ?thesis
    by blast
qed

theorem search_starts_at_goal_layer_or_lower_bound_witness:
  "main [''smtplan'', ''d'', ''p'', ''-l'', ''5'', ''-r'', ''-u'', ''3'']
      (example_environment False True 3)
     = prepend (setup_events ((default_options ''d'' ''p'')
           \<lparr>lower_bound := 5, upper_bound := 3, rpg_lower_bound := True\<rparr>))
         (search_loop (example_environment False True 3)
            ((default_options ''d'' ''p'')
               \<lparr>encoding_path := ''test.smt2'', lower_bound := 3, upper_bound := 3,
                rpg_lower_bound := True\<rparr>) 3)
   \<and> (\<exists>rest. encoded_counts (fst (main [''smtplan'', ''d'', ''p'', ''-l'', ''5'', ''-r'', ''-u'', ''3'']
         (example_environment False True 3))) = 3 # rest)
   \<and> (\<exists>rest. encoded_counts (fst (main [''smtplan'', ''d'', ''p'', ''-l'', ''2'', ''-u'', ''3'']
         (example_environment False True 3))) = 2 # rest)
   \<and> drop 3 [''smtplan'', ''d'', ''p'', ''-l'', ''5'', ''-r'', ''-u'', ''3'']
       = [''-l'', ''5''] @ ''-r'' # [''-u'', ''3'']
   \<and> read_arguments [''-l'', ''5''] (default_options ''d'' ''p'')
       = Inr ((default_options ''d'' ''p'') \<lparr>lower_bound := 5\<rparr>)
   \<and> rpg_lower_bound ((default_options ''d'' ''p'')
         \<lparr>lower_bound := 5, upper_bound := 3, rpg_lower_bound := True\<rparr>)
   \<and> ''-r'' \<notin> set (drop 3 [''smtplan'', ''d'', ''p'', ''-l'', ''2'', ''-u'', ''3''])
   \<and> \<not> rpg_lower_bound ((default_options ''d'' ''p'') \<lparr>lower_bound := 2, upper_bound := 3\<rparr>)"
proof -
  let ?env = "example_environment False True 3"
  let ?argv = "[''smtplan'', ''d'', ''p'', ''-l'', ''5'', ''-r'', ''-u'', ''3'']"
  let ?options = "(default_options ''d'' ''p'')
    \<lparr>lower_bound := 5, upper_bound := 3, rpg_lower_bound := True\<rparr>"
  let ?argv' = "[''smtplan'', ''d'', ''p'', ''-l'', ''2'', ''-u'', ''3'']"
  let ?options' = "(default_options ''d'' ''p'') \<lparr>lower_bound := 2, upper_bound := 3\<rparr>"
  have parsed: "parseArguments ?argv = Inr ?options"
    by (simp add: run_defs)
  have parsed': "parseArguments ?argv' = Inr ?options'"
    by (simp add: run_defs)
  have files: "parseDomain ?env d" "parseProblem ?env p" "file_opens ?env f i" for d p f i
    by (simp_all add: example_environment_def)
  have start: "(if rpg_lower_bound ?options then goal_layer ?env else lower_bound ?options) = 3"
    by (simp add: example_environment_def)
  have start': "(if rpg_lower_bound ?options' then goal_layer ?env else lower_bound ?options') = 2"
    by (simp add: default_options_def)
  have bound: "in_bound ?options 3" "in_bound ?options' 2"
    by (simp_all add: in_bound_def)
  have "3 \<le> length ?argv" and "3 \<le> length ?argv'"
    by simp_all
  note with_r = search_starts_at_goal_layer_or_lower_bound
    [OF \<open>3 \<le> length ?argv\<close> parsed files(1,2), unfolded start]
  note without_r = search_starts_at_goal_layer_or_lower_bound
    [OF \<open>3 \<le> length ?argv'\<close> parsed' files(1,2), unfolded start']
  have "main ?argv ?env = prepend (setup_events ?options)
       (search_loop ?env (search_options ?env ?options) 3)"
    using with_r by (rule conjunct1)
  moreover have "\<exists>rest. encoded_counts (fst (main ?argv ?env)) = 3 # rest"
    using with_r [THEN conjunct2, THEN conjunct1] bound(1) files(3) by blast
  moreover have "\<exists>rest. encoded_counts (fst (main ?argv' ?env)) = 2 # rest"
    using without_r [THEN conjunct2, THEN conjunct1] bound(2) files(3) by blast
  moreover have "search_options ?env ?options = (default_options ''d'' ''p'')
      \<lparr>encoding_path := ''test.smt2'', lower_bound := 3, upper_bound := 3,
       rpg_lower_bound := True\<rparr>"
    by (simp add: search_options_def example_environment_def)
  moreover have split: "drop 3 ?argv = [''-l'', ''5''] @ ''-r'' # [''-u'', ''3'']"
    by simp
  moreover have before: "read_arguments [''-l'', ''5''] (default_options (?argv ! 1) (?argv ! 2))
      = Inr ((default_options ''d'' ''p'') \<lparr>lower_bound := 5\<rparr>)"
    by (simp add: run_defs)
  moreover have "rpg_lower_bound ?options"
    using with_r [THEN conjunct2, THEN conjunct2, THEN conjunct1] split before by blast
  moreover have absent: "''-r'' \<notin> set (drop 3 ?argv')"
    by simp
  moreover have "\<not> rpg_lower_bound ?options'"
    using without_r [THEN conjunct2, THEN conjunct2, THEN conjunct2, THEN conjunct1] absent
    by blast
  ultimately show ?thesis
    by (simp only: simp_thms nth_Cons_0 nth_Cons_Suc One_nat_def numeral_2_eq_2)
qed

subsection \<open>A solver result other than 0\<close>





subsection \<open>The exit code\<close>





end
